theory Spec2Isabelle
  imports Main
begin

section \<open>Process records\<close>

text \<open>
  \<^verbatim>\<open>struct Process\<close> of \<^verbatim>\<open>process.h\<close>, field by field. C's \<^verbatim>\<open>int\<close> is modelled
  by the unbounded \<^typ>\<open>int\<close>: the engines only add and subtract tick counts, and a run
  whose counts leave the range of a 32-bit integer is outside the model.
\<close>

record Process =
  processID :: int
  arrival :: int
  burst :: int
  remain :: int
  prioity :: int
  waiting :: int
  timeout :: int
  execute :: int

text \<open>
  \<^verbatim>\<open>SJF.h\<close> is written against an older revision of the struct: it also assigns
  \<^verbatim>\<open>temp->turnaround\<close> and \<^verbatim>\<open>temp->response\<close>. Its records are the extension of
  \<^typ>\<open>Process\<close> by these two fields.
\<close>

record Process_SJF = Process +
  turnaround :: int
  response :: int

section \<open>Errors\<close>

text \<open>
  The four error kinds the specification names, and \<open>NullPointer\<close> for the two places
  where \<^verbatim>\<open>RR.h\<close> goes through a pointer without testing it: \<^verbatim>\<open>temp\<close> in
  \<^verbatim>\<open>temp->execute == t\<close>, and \<^verbatim>\<open>gantt\<close>, the result of \<^verbatim>\<open>malloc\<close>, in
  \<^verbatim>\<open>gantt[time++] = *temp\<close>.
\<close>

datatype error = InvalidInput | InvalidQuantum | EmptyQueue | NoData | NullPointer

definition bind_err :: "error + 'a \<Rightarrow> ('a \<Rightarrow> error + 'b) \<Rightarrow> error + 'b" where
  "bind_err m f = (case m of Inl e \<Rightarrow> Inl e | Inr x \<Rightarrow> f x)"

section \<open>The queue\<close>

text \<open>
  Modelled from the spec: \<^verbatim>\<open>queue.h\<close> (\<^verbatim>\<open>QueueType\<close>, \<^verbatim>\<open>init_queue\<close>, \<^verbatim>\<open>enqueue\<close>,
  \<^verbatim>\<open>dequeue\<close>, \<^verbatim>\<open>peek\<close>, \<^verbatim>\<open>is_empty_q\<close>, \<^verbatim>\<open>sort\<close>) is not among the sources. The
  specification (4.1) describes an ordered container of record values with \<open>push\<close>,
  \<open>popFront\<close> and \<open>peekFront\<close> (both fail with \<open>EmptyQueue\<close> when there is no element),
  \<open>isEmpty\<close>, and \<open>reorder\<close>, a stable sort by a comparator. A queue is the list of its
  records, front first. The capacity of the C arrays (\<^verbatim>\<open>MAX\<close>) is not modelled.
\<close>

text \<open>Modelled from the spec: \<^verbatim>\<open>init_queue\<close> of \<^verbatim>\<open>queue.h\<close>; the queue with no record.\<close>

definition init_queue :: "'a list" where
  "init_queue = []"

text \<open>Modelled from the spec: \<^verbatim>\<open>is_empty_q\<close> of \<^verbatim>\<open>queue.h\<close>; \<open>isEmpty\<close>.\<close>

definition is_empty_q :: "'a list \<Rightarrow> bool" where
  "is_empty_q q = (q = [])"

text \<open>Modelled from the spec: \<^verbatim>\<open>enqueue\<close> of \<^verbatim>\<open>queue.h\<close>; \<open>push\<close>, at the back.\<close>

definition enqueue :: "'a list \<Rightarrow> 'a \<Rightarrow> 'a list" where
  "enqueue q x = q @ [x]"

text \<open>
  Modelled from the spec: \<^verbatim>\<open>peek\<close> of \<^verbatim>\<open>queue.h\<close>; \<open>peekFront\<close>, which fails with
  \<open>EmptyQueue\<close> on the empty queue.
\<close>

definition peek :: "'a list \<Rightarrow> error + 'a" where
  "peek q = (case q of [] \<Rightarrow> Inl EmptyQueue | x # _ \<Rightarrow> Inr x)"

text \<open>
  Modelled from the spec: \<^verbatim>\<open>dequeue\<close> of \<^verbatim>\<open>queue.h\<close>; \<open>popFront\<close>, which fails with
  \<open>EmptyQueue\<close> on the empty queue. The C function returns a pointer to the record;
  here it returns the record and the queue that is left.
\<close>

definition dequeue :: "'a list \<Rightarrow> error + ('a \<times> 'a list)" where
  "dequeue q = (case q of [] \<Rightarrow> Inl EmptyQueue | x # xs \<Rightarrow> Inr (x, xs))"

text \<open>
  Modelled from the spec: \<^verbatim>\<open>sort\<close> of \<^verbatim>\<open>queue.h\<close>; \<open>reorder\<close>, a stable sort. It is
  an insertion from the right, each record placed in front of the first one it does not
  exceed, so records that compare equal keep their order. The comparator follows C's
  \<^verbatim>\<open>qsort\<close> convention: negative, zero or positive.
\<close>

fun place :: "('a \<Rightarrow> 'a \<Rightarrow> int) \<Rightarrow> 'a \<Rightarrow> 'a list \<Rightarrow> 'a list" where
  "place cmp x [] = [x]"
| "place cmp x (y # ys) = (if cmp x y \<le> 0 then x # y # ys else y # place cmp x ys)"

text \<open>Modelled from the spec: \<^verbatim>\<open>sort(&q, cmp)\<close>, every record placed in turn.\<close>

definition sort_q :: "'a list \<Rightarrow> ('a \<Rightarrow> 'a \<Rightarrow> int) \<Rightarrow> 'a list" where
  "sort_q q cmp = foldr (place cmp) q []"

text \<open>
  Modelled from the spec: \<^verbatim>\<open>timeout\<close>, \<^verbatim>\<open>dispatch\<close> and \<^verbatim>\<open>check\<close>, the names under
  which \<^verbatim>\<open>SJF.h\<close> calls push, pop and peek; the specification knows one queue only
  (4.1, 9).
\<close>

abbreviation timeout_q :: "'a list \<Rightarrow> 'a \<Rightarrow> 'a list" where
  "timeout_q \<equiv> enqueue"

abbreviation dispatch :: "'a list \<Rightarrow> error + ('a \<times> 'a list)" where
  "dispatch \<equiv> dequeue"

abbreviation check :: "'a list \<Rightarrow> error + 'a" where
  "check \<equiv> peek"

section \<open>Comparators\<close>

text \<open>
  Modelled from the spec: \<^verbatim>\<open>compare.h\<close> (\<^verbatim>\<open>compare_for_arrival\<close>) is not among the
  sources; the specification asks for by-arrival-ascending. It is written in the shape
  of \<^verbatim>\<open>compare_for_SJF\<close>.
\<close>

definition compare_for_arrival :: "'a Process_scheme \<Rightarrow> 'a Process_scheme \<Rightarrow> int" where
  "compare_for_arrival A B =
     (if arrival A > arrival B then 1 else 0) - (if arrival A < arrival B then 1 else 0)"

text \<open>\<^verbatim>\<open>SJF.h\<close>: \<^verbatim>\<open>return (A->burst>B->burst)-(A->burst<B->burst);\<close>\<close>

definition compare_for_SJF :: "'a Process_scheme \<Rightarrow> 'a Process_scheme \<Rightarrow> int" where
  "compare_for_SJF A B =
     (if burst A > burst B then 1 else 0) - (if burst A < burst B then 1 else 0)"

text \<open>
  The ordering the specification words for the SJF ready queue (4.1, 4.4):
  by-remaining-burst-ascending. It is compared with \<^const>\<open>compare_for_SJF\<close> below.
\<close>

definition compare_for_remain :: "'a Process_scheme \<Rightarrow> 'a Process_scheme \<Rightarrow> int" where
  "compare_for_remain A B =
     (if remain A > remain B then 1 else 0) - (if remain A < remain B then 1 else 0)"

section \<open>Engine state\<close>

text \<open>
  The local variables of an engine, and \<open>input_p\<close>, the caller's array \<^verbatim>\<open>p\<close> as the
  engine leaves it. \<^verbatim>\<open>temp\<close> is a pointer to the record that owns the CPU, or
  \<^verbatim>\<open>NULL\<close>; the records a queue hands out are values (4.1), so \<open>temp\<close> is the record
  itself, or \<open>None\<close>. \<open>result\<close> is the result array up to its index (\<^verbatim>\<open>result_index\<close>
  in FCFS, \<^verbatim>\<open>terminate\<close> in SJF and RR), \<open>gantt\<close> the trace that only RR writes, one
  record per tick. The fixed sizes of these buffers are not modelled, but for the
  \<^verbatim>\<open>gantt\<close> of RR, which is \<^verbatim>\<open>NULL\<close> when \<open>t < 0\<close> (see \<open>RR_progress\<close>). The totals of
  SJF are \<^verbatim>\<open>double\<close>s that only ever hold sums of integers.
\<close>

record 'p sched =
  input_p :: "'p list"
  pre :: "'p list"
  ready :: "'p list"
  temp :: "'p option"
  time :: int
  terminate :: int
  total_turnaround :: int
  total_waiting :: int
  total_response :: int
  result :: "'p list"
  gantt :: "'p list"

text \<open>
  The state before the loop: every \<^verbatim>\<open>p[i]\<close> is pushed, by value, into \<open>pre\<close>; FCFS
  and RR then sort \<open>pre\<close> by arrival, SJF does not.
\<close>

definition start :: "'p list \<Rightarrow> 'p list \<Rightarrow> 'p sched" where
  "start p q =
     \<lparr>input_p = p, pre = q, ready = init_queue, temp = None, time = 0, terminate = 0,
      total_turnaround = 0, total_waiting = 0, total_response = 0, result = [],
      gantt = []\<rparr>"

section \<open>The simulation loop\<close>

text \<open>
  \<^verbatim>\<open>while(terminate < n) { ... }\<close>, the same in the three engines; \<open>tick\<close> is the body.
  Nothing in the code bounds the number of passes, so the loop takes fuel: \<open>None\<close> is a
  loop that is still running when the fuel is used up, \<open>Some (Inl e)\<close> a run that a
  failed operation ends, \<open>Some (Inr s)\<close> the state the loop is left with.
\<close>

fun loop :: "('p sched \<Rightarrow> error + 'p sched) \<Rightarrow> nat \<Rightarrow> int \<Rightarrow> 'p sched \<Rightarrow> (error + 'p sched) option" where
  "loop tick 0 n s = (if terminate s < n then None else Some (Inr s))"
| "loop tick (Suc k) n s =
     (if terminate s < n then
        (case tick s of
           Inl e \<Rightarrow> Some (Inl e)
         | Inr s' \<Rightarrow> loop tick k n s')
      else Some (Inr s))"

text \<open>The state at the head of the loop \<open>k\<close> passes later (fewer if the loop ends before).\<close>

fun after :: "('p sched \<Rightarrow> error + 'p sched) \<Rightarrow> nat \<Rightarrow> int \<Rightarrow> 'p sched \<Rightarrow> error + 'p sched" where
  "after tick 0 n s = Inr s"
| "after tick (Suc k) n s =
     (if terminate s < n then bind_err (tick s) (after tick k n) else Inr s)"

section \<open>FCFS\<close>

text \<open>\<^verbatim>\<open>FCFS.h\<close>, "insert prcoess into the ready queue in order of arrive".\<close>

definition FCFS_arrive :: "Process sched \<Rightarrow> error + Process sched" where
  "FCFS_arrive s =
     (if \<not> is_empty_q (pre s) then
        bind_err (peek (pre s)) (\<lambda>f.
          if arrival f = time s then
            bind_err (dequeue (pre s)) (\<lambda>(x, pre').
              Inr (s\<lparr>pre := pre', ready := enqueue (ready s) x\<rparr>))
          else Inr s)
      else Inr s)"

text \<open>
  "dispatch new PCB: if the previous task terminated". \<^verbatim>\<open>peek(&ready)\<close> is the left
  operand of \<^verbatim>\<open>&&\<close>: it is evaluated on every tick, whatever \<^verbatim>\<open>temp\<close> is.
\<close>

definition FCFS_dispatch :: "Process sched \<Rightarrow> error + Process sched" where
  "FCFS_dispatch s =
     bind_err (peek (ready s)) (\<lambda>f.
       if arrival f \<le> time s \<and> temp s = None then
         bind_err (dequeue (ready s)) (\<lambda>(x, ready').
           let w = time s - arrival x in
           Inr (s\<lparr>ready := ready',
                  temp := Some (x\<lparr>waiting := w, execute := 0\<rparr>),
                  total_waiting := total_waiting s + w\<rparr>))
       else Inr s)"

text \<open>\<^verbatim>\<open>time++\<close>, then "scheduler task progress" and "terminate present PCB".\<close>

definition FCFS_progress :: "Process sched \<Rightarrow> Process sched" where
  "FCFS_progress s =
     (let s1 = s\<lparr>time := time s + 1\<rparr> in
      case temp s1 of
        None \<Rightarrow> s1
      | Some x \<Rightarrow>
          let y = x\<lparr>remain := remain x - 1, execute := execute x + 1\<rparr> in
          if remain y = 0 then
            s1\<lparr>total_turnaround := total_turnaround s1 + (execute y + waiting y),
               total_response := total_response s1 + waiting y,
               result := result s1 @ [y],
               temp := None,
               terminate := terminate s1 + 1\<rparr>
          else s1\<lparr>temp := Some y\<rparr>)"

definition FCFS_tick :: "Process sched \<Rightarrow> error + Process sched" where
  "FCFS_tick s =
     bind_err (FCFS_arrive s) (\<lambda>s1.
     bind_err (FCFS_dispatch s1) (\<lambda>s2.
     Inr (FCFS_progress s2)))"

text \<open>
  \<^verbatim>\<open>FCFS(p, n)\<close>, where \<open>p\<close> is the list of the \<^verbatim>\<open>n\<close> records \<^verbatim>\<open>p[0]\<close> ...
  \<^verbatim>\<open>p[n-1]\<close>. The value returned is the state that \<^verbatim>\<open>print_result\<close> is called on.
\<close>

definition FCFS_init :: "Process list \<Rightarrow> Process sched" where
  "FCFS_init p = start p (sort_q (foldl enqueue init_queue p) compare_for_arrival)"

definition FCFS :: "nat \<Rightarrow> Process list \<Rightarrow> (error + Process sched) option" where
  "FCFS fuel p = loop FCFS_tick fuel (int (length p)) (FCFS_init p)"

section \<open>SJF\<close>

text \<open>
  \<^verbatim>\<open>SJF.h\<close>. Admission: the record popped from \<open>pre\<close> is pushed into \<open>ready\<close>, which is
  then sorted with \<^verbatim>\<open>compare_for_SJF\<close>.
\<close>

definition SJF_arrive :: "Process_SJF sched \<Rightarrow> error + Process_SJF sched" where
  "SJF_arrive s =
     (if \<not> is_empty_q (pre s) then
        bind_err (check (pre s)) (\<lambda>f.
          if arrival f = time s then
            bind_err (dispatch (pre s)) (\<lambda>(x, pre').
              Inr (s\<lparr>pre := pre',
                     ready := sort_q (timeout_q (ready s) x) compare_for_SJF\<rparr>))
          else Inr s)
      else Inr s)"

text \<open>"dispatch new PCB", here under \<^verbatim>\<open>if(!is_empty_q(&ready))\<close>.\<close>

definition SJF_dispatch :: "Process_SJF sched \<Rightarrow> error + Process_SJF sched" where
  "SJF_dispatch s =
     (if \<not> is_empty_q (ready s) then
        bind_err (check (ready s)) (\<lambda>f.
          if arrival f \<le> time s \<and> temp s = None then
            bind_err (dispatch (ready s)) (\<lambda>(x, ready').
              let w = time s - arrival x in
              Inr (s\<lparr>ready := ready',
                     temp := Some (x\<lparr>waiting := w\<rparr>),
                     total_waiting := total_waiting s + w\<rparr>))
          else Inr s)
      else Inr s)"

text \<open>\<^verbatim>\<open>time_flow++\<close>, then "scheduler task progress" and "terminate present PCB".\<close>

definition SJF_progress :: "Process_SJF sched \<Rightarrow> Process_SJF sched" where
  "SJF_progress s =
     (let s1 = s\<lparr>time := time s + 1\<rparr> in
      case temp s1 of
        None \<Rightarrow> s1
      | Some x \<Rightarrow>
          let y = x\<lparr>remain := remain x - 1\<rparr> in
          if remain y = 0 then
            let z = y\<lparr>turnaround := burst y + waiting y, response := waiting y\<rparr> in
            s1\<lparr>total_turnaround := total_turnaround s1 + turnaround z,
               total_response := total_response s1 + response z,
               result := result s1 @ [z],
               terminate := terminate s1 + 1,
               temp := None\<rparr>
          else s1\<lparr>temp := Some y\<rparr>)"

definition SJF_tick :: "Process_SJF sched \<Rightarrow> error + Process_SJF sched" where
  "SJF_tick s =
     bind_err (SJF_arrive s) (\<lambda>s1.
     bind_err (SJF_dispatch s1) (\<lambda>s2.
     Inr (SJF_progress s2)))"

text \<open>\<^verbatim>\<open>SJF(p, n)\<close>: \<open>pre\<close> holds the records in the order of \<open>p\<close>; it is not sorted.\<close>

definition SJF_init :: "Process_SJF list \<Rightarrow> Process_SJF sched" where
  "SJF_init p = start p (foldl timeout_q init_queue p)"

definition SJF :: "nat \<Rightarrow> Process_SJF list \<Rightarrow> (error + Process_SJF sched) option" where
  "SJF fuel p = loop SJF_tick fuel (int (length p)) (SJF_init p)"

section \<open>Round-Robin\<close>

text \<open>\<^verbatim>\<open>RR.h\<close>, "if process arrives while time value is increasing".\<close>

definition RR_arrive :: "Process sched \<Rightarrow> error + Process sched" where
  "RR_arrive s =
     (if \<not> is_empty_q (pre s) then
        bind_err (peek (pre s)) (\<lambda>f.
          if arrival f = time s then
            bind_err (dequeue (pre s)) (\<lambda>(x, pre').
              Inr (s\<lparr>pre := pre', ready := enqueue (ready s) x\<rparr>))
          else Inr s)
      else Inr s)"

text \<open>"dispatch new PCB": \<^verbatim>\<open>temp->waiting = time - temp->timeout\<close>.\<close>

definition RR_dispatch :: "Process sched \<Rightarrow> error + Process sched" where
  "RR_dispatch s =
     bind_err (peek (ready s)) (\<lambda>f.
       if arrival f \<le> time s \<and> temp s = None then
         bind_err (dequeue (ready s)) (\<lambda>(x, ready').
           let w = time s - timeout x in
           Inr (s\<lparr>ready := ready',
                  temp := Some (x\<lparr>waiting := w, execute := 0\<rparr>),
                  total_waiting := total_waiting s + w\<rparr>))
       else Inr s)"

text \<open>
  The block under \<^verbatim>\<open>if(temp->execute == t)\<close>: the running record is stamped with the
  tick, counted into the totals and pushed to the back of \<open>ready\<close>; the front of \<open>ready\<close>
  is dispatched in its place. \<^verbatim>\<open>temp\<close> is dereferenced without a test. The bound is the
  parameter \<^verbatim>\<open>t\<close>; the parameter \<^verbatim>\<open>q\<close> occurs nowhere in the body of \<^verbatim>\<open>RR\<close>.
\<close>

definition RR_timeout :: "int \<Rightarrow> Process sched \<Rightarrow> error + Process sched" where
  "RR_timeout t s =
     (case temp s of
        None \<Rightarrow> Inl NullPointer
      | Some x \<Rightarrow>
          if execute x = t then
            let y = x\<lparr>timeout := time s\<rparr>;
                s1 = s\<lparr>total_turnaround := total_turnaround s + (execute y + waiting y),
                       total_response := total_response s + waiting y,
                       ready := enqueue (ready s) y\<rparr>
            in bind_err (dequeue (ready s1)) (\<lambda>(z, ready').
                 let w = time s1 - timeout z in
                 Inr (s1\<lparr>ready := ready',
                         temp := Some (z\<lparr>waiting := w, execute := 0\<rparr>),
                         total_waiting := total_waiting s1 + w\<rparr>))
          else Inr s)"

text \<open>
  \<^verbatim>\<open>gantt[time++] = *temp\<close>, then "scheduler task progress" and "terminate present
  PCB". \<^verbatim>\<open>gantt\<close> is \<^verbatim>\<open>malloc(sizeof(Process)*t)\<close>. For \<open>t < 0\<close> the size, converted to
  \<^verbatim>\<open>size_t\<close>, is one that no allocation can meet: \<^verbatim>\<open>gantt\<close> is \<^verbatim>\<open>NULL\<close> and the write of
  the first tick faults. For \<open>0 \<le> t\<close> the block has room for \<open>t\<close> records. The write of a
  tick \<open>time \<ge> t\<close> lands past the block, which is undefined behaviour in C and not a
  failure that the code can be seen to raise: the trace keeps the record and the run
  goes on, so the records of \<open>gantt s\<close> beyond the first \<open>t\<close> are those written past the
  block.
\<close>

definition RR_progress :: "int \<Rightarrow> Process sched \<Rightarrow> error + Process sched" where
  "RR_progress t s =
     (case temp s of
        None \<Rightarrow> Inl NullPointer
      | Some x \<Rightarrow>
          if t < 0 then Inl NullPointer
          else
            let s1 = s\<lparr>gantt := gantt s @ [x], time := time s + 1\<rparr>;
                y = x\<lparr>remain := remain x - 1, execute := execute x + 1\<rparr>
            in if remain y = 0 then
                 Inr (s1\<lparr>total_turnaround := total_turnaround s1 + (execute y + waiting y),
                         total_response := total_response s1 + waiting y,
                         result := result s1 @ [y],
                         terminate := terminate s1 + 1,
                         temp := None\<rparr>)
               else Inr (s1\<lparr>temp := Some y\<rparr>))"

definition RR_tick :: "int \<Rightarrow> Process sched \<Rightarrow> error + Process sched" where
  "RR_tick t s =
     bind_err (RR_arrive s) (\<lambda>s1.
     bind_err (RR_dispatch s1) (\<lambda>s2.
     bind_err (RR_timeout t s2) (\<lambda>s3.
     RR_progress t s3)))"

text \<open>
  \<^verbatim>\<open>RR(p, n, t, q)\<close>; the header documents \<^verbatim>\<open>t\<close> as "save scheduler total burst time"
  and \<^verbatim>\<open>q\<close> as "save scheduler time quantum".
\<close>

definition RR_init :: "Process list \<Rightarrow> Process sched" where
  "RR_init p = start p (sort_q (foldl enqueue init_queue p) compare_for_arrival)"

definition RR :: "nat \<Rightarrow> Process list \<Rightarrow> int \<Rightarrow> int \<Rightarrow> (error + Process sched) option" where
  "RR fuel p t q = loop (RR_tick t) fuel (int (length p)) (RR_init p)"

section \<open>FCFS and RR over a peek that is a parameter\<close>

text \<open>
  FCFS and RR call \<^verbatim>\<open>peek(&ready)\<close> without testing the queue, so what a run of theirs
  does once the ready queue is empty hangs on what \<^verbatim>\<open>peek\<close> does there, and \<^verbatim>\<open>queue.h\<close>
  is not among the sources. \<^verbatim>\<open>peek(&ready).arrival\<close> shows that \<^verbatim>\<open>peek\<close> returns a struct
  by value. Here the outcome of a peek at the empty queue is a parameter \<open>e\<close>:
  \<open>Inl EmptyQueue\<close> for the queue of the specification, as in \<open>peek\<close> above, and
  \<open>Inr g\<close> for a \<^verbatim>\<open>peek\<close> that returns the struct \<open>g\<close> it finds in the storage of the
  queue. \<open>dequeue\<close> stays as it is modelled above.
\<close>

text \<open>
  Modelled from the spec: \<^verbatim>\<open>peek\<close> of \<^verbatim>\<open>queue.h\<close>; \<open>peekFront\<close> on a queue that holds a
  record, and \<open>e\<close> on the empty queue.
\<close>

definition peek_with :: "error + 'a \<Rightarrow> 'a list \<Rightarrow> error + 'a" where
  "peek_with e q = (case q of [] \<Rightarrow> e | x # _ \<Rightarrow> Inr x)"

text \<open>The dispatch block of \<^verbatim>\<open>FCFS.h\<close>, as in \<open>FCFS_dispatch\<close>, over \<open>peek_with e\<close>.\<close>

definition FCFS_dispatch_with :: "error + Process \<Rightarrow> Process sched \<Rightarrow> error + Process sched" where
  "FCFS_dispatch_with e s =
     bind_err (peek_with e (ready s)) (\<lambda>f.
       if arrival f \<le> time s \<and> temp s = None then
         bind_err (dequeue (ready s)) (\<lambda>(x, ready').
           let w = time s - arrival x in
           Inr (s\<lparr>ready := ready',
                  temp := Some (x\<lparr>waiting := w, execute := 0\<rparr>),
                  total_waiting := total_waiting s + w\<rparr>))
       else Inr s)"

definition FCFS_tick_with :: "error + Process \<Rightarrow> Process sched \<Rightarrow> error + Process sched" where
  "FCFS_tick_with e s =
     bind_err (FCFS_arrive s) (\<lambda>s1.
     bind_err (FCFS_dispatch_with e s1) (\<lambda>s2.
     Inr (FCFS_progress s2)))"

definition FCFS_with :: "error + Process \<Rightarrow> nat \<Rightarrow> Process list \<Rightarrow> (error + Process sched) option" where
  "FCFS_with e fuel p = loop (FCFS_tick_with e) fuel (int (length p)) (FCFS_init p)"

text \<open>The dispatch block of \<^verbatim>\<open>RR.h\<close>, as in \<open>RR_dispatch\<close>, over \<open>peek_with e\<close>.\<close>

definition RR_dispatch_with :: "error + Process \<Rightarrow> Process sched \<Rightarrow> error + Process sched" where
  "RR_dispatch_with e s =
     bind_err (peek_with e (ready s)) (\<lambda>f.
       if arrival f \<le> time s \<and> temp s = None then
         bind_err (dequeue (ready s)) (\<lambda>(x, ready').
           let w = time s - timeout x in
           Inr (s\<lparr>ready := ready',
                  temp := Some (x\<lparr>waiting := w, execute := 0\<rparr>),
                  total_waiting := total_waiting s + w\<rparr>))
       else Inr s)"

definition RR_tick_with :: "error + Process \<Rightarrow> int \<Rightarrow> Process sched \<Rightarrow> error + Process sched" where
  "RR_tick_with e t s =
     bind_err (RR_arrive s) (\<lambda>s1.
     bind_err (RR_dispatch_with e s1) (\<lambda>s2.
     bind_err (RR_timeout t s2) (\<lambda>s3.
     RR_progress t s3)))"

definition RR_with :: "error + Process \<Rightarrow> nat \<Rightarrow> Process list \<Rightarrow> int \<Rightarrow> int \<Rightarrow> (error + Process sched) option" where
  "RR_with e fuel p t q = loop (RR_tick_with e t) fuel (int (length p)) (RR_init p)"

section \<open>Loop invariants\<close>





text \<open>
  A queue is \<open>fresh\<close> when none of its records has run: \<open>remain\<close> is still
  \<open>burst\<close>.
\<close>

definition fresh :: "'a Process_scheme list \<Rightarrow> bool" where
  "fresh q = list_all (\<lambda>r. remain r = burst r) q"

text \<open>
  What holds of the ready queue of SJF at the head of the loop: it is in ascending order
  of \<open>burst\<close>, its records have arrived, and neither they nor the pending ones have run.
\<close>

definition SJF_ready_inv :: "Process_SJF sched \<Rightarrow> bool" where
  "SJF_ready_inv s \<longleftrightarrow>
     sorted_wrt (\<lambda>a b. burst a \<le> burst b) (ready s) \<and>
     (\<forall>r \<in> set (ready s). arrival r \<le> time s) \<and>
     fresh (pre s) \<and> fresh (ready s)"

section \<open>Example inputs\<close>

text \<open>
  A process definition as the caller hands it over: \<^verbatim>\<open>remain\<close> equal to \<^verbatim>\<open>burst\<close> (as
  \<^verbatim>\<open>process.h\<close> documents the two fields), the bookkeeping fields zero.
\<close>

definition proc :: "int \<Rightarrow> int \<Rightarrow> int \<Rightarrow> Process" where
  "proc i a b =
     \<lparr>processID = i, arrival = a, burst = b, remain = b, prioity = 0, waiting = 0,
      timeout = 0, execute = 0\<rparr>"

definition proc_sjf :: "int \<Rightarrow> int \<Rightarrow> int \<Rightarrow> Process_SJF" where
  "proc_sjf i a b =
     \<lparr>processID = i, arrival = a, burst = b, remain = b, prioity = 0, waiting = 0,
      timeout = 0, execute = 0, turnaround = 0, response = 0\<rparr>"

section \<open>The loop and the queue\<close>

lemma bind_err_Inr: "bind_err m f = Inr y \<Longrightarrow> \<exists>x. m = Inr x \<and> f x = Inr y"
  by (cases m) (simp_all add: bind_err_def)


lemma after_invariant:
  assumes step: "\<And>s s'. I s \<Longrightarrow> terminate s < n \<Longrightarrow> tick s = Inr s' \<Longrightarrow> I s'"
  shows "I s \<Longrightarrow> after tick k n s = Inr out \<Longrightarrow> I out"
proof (induction k arbitrary: s)
  case 0
  then show ?case by simp
next
  case (Suc k)
  show ?case
  proof (cases "terminate s < n")
    case False
    with Suc.prems show ?thesis by simp
  next
    case True
    with Suc.prems obtain s' where t: "tick s = Inr s'" and l: "after tick k n s' = Inr out"
      by (auto dest: bind_err_Inr)
    from step [OF Suc.prems(1) True t] have "I s'" .
    from Suc.IH [OF this l] show ?thesis .
  qed
qed

lemma set_place: "set (place cmp x ys) = insert x (set ys)"
  by (induction ys) auto

lemma set_sort_q: "set (sort_q q cmp) = set q"
  by (induction q) (simp_all add: sort_q_def set_place)

lemma length_place: "length (place cmp x ys) = Suc (length ys)"
  by (induction ys) auto

lemma length_sort_q: "length (sort_q q cmp) = length q"
  by (induction q) (simp_all add: sort_q_def length_place)

lemma foldl_enqueue: "foldl enqueue q p = q @ p"
  by (induction p arbitrary: q) (simp_all add: enqueue_def)

subsection \<open>FCFS\<close>

lemma FCFS_arrive_cases:
  assumes "FCFS_arrive s = Inr s'"
  shows "s' = s \<or> (\<exists>x xs. pre s = x # xs \<and> arrival x = time s \<and> s' = s\<lparr>pre := xs, ready := ready s @ [x]\<rparr>)"
  using assms
  by (auto simp: FCFS_arrive_def bind_err_def peek_def dequeue_def is_empty_q_def enqueue_def
      split: list.splits if_splits)

lemma FCFS_dispatch_cases:
  assumes "FCFS_dispatch s = Inr s'"
  shows "s' = s \<or> (\<exists>x xs. ready s = x # xs \<and> arrival x \<le> time s \<and> temp s = None \<and>
           s' = s\<lparr>ready := xs, temp := Some (x\<lparr>waiting := time s - arrival x, execute := 0\<rparr>),
                  total_waiting := total_waiting s + (time s - arrival x)\<rparr>)"
  using assms
  by (auto simp: FCFS_dispatch_def bind_err_def peek_def dequeue_def Let_def
      split: list.splits if_splits)


lemma peek_with_EmptyQueue: "peek_with (Inl EmptyQueue) q = peek q"
  by (simp add: peek_with_def peek_def)

lemma FCFS_dispatch_with_EmptyQueue: "FCFS_dispatch_with (Inl EmptyQueue) s = FCFS_dispatch s"
  by (simp add: FCFS_dispatch_with_def FCFS_dispatch_def peek_with_EmptyQueue)

lemma FCFS_tick_with_EmptyQueue: "FCFS_tick_with (Inl EmptyQueue) s = FCFS_tick s"
  by (simp add: FCFS_tick_with_def FCFS_tick_def FCFS_dispatch_with_EmptyQueue)

lemma FCFS_with_EmptyQueue: "FCFS_with (Inl EmptyQueue) fuel p = FCFS fuel p"
proof -
  have "FCFS_tick_with (Inl EmptyQueue) = FCFS_tick"
    by (rule ext) (rule FCFS_tick_with_EmptyQueue)
  then show ?thesis by (simp add: FCFS_with_def FCFS_def)
qed




lemma FCFS_tick_phases:
  "FCFS_tick s = Inr s' \<Longrightarrow> \<exists>s1 s2. FCFS_arrive s = Inr s1 \<and> FCFS_dispatch s1 = Inr s2 \<and> s' = FCFS_progress s2"
  by (auto simp: FCFS_tick_def dest!: bind_err_Inr)











subsection \<open>SJF\<close>

lemma SJF_arrive_cases:
  assumes "SJF_arrive s = Inr s'"
  shows "s' = s \<or> (\<exists>x xs. pre s = x # xs \<and> arrival x = time s \<and>
           s' = s\<lparr>pre := xs, ready := sort_q (ready s @ [x]) compare_for_SJF\<rparr>)"
  using assms
  by (auto simp: SJF_arrive_def bind_err_def peek_def dequeue_def is_empty_q_def enqueue_def
      split: list.splits if_splits)

lemma SJF_dispatch_cases:
  assumes "SJF_dispatch s = Inr s'"
  shows "s' = s \<or> (\<exists>x xs. ready s = x # xs \<and> arrival x \<le> time s \<and> temp s = None \<and>
           s' = s\<lparr>ready := xs, temp := Some (x\<lparr>waiting := time s - arrival x\<rparr>),
                  total_waiting := total_waiting s + (time s - arrival x)\<rparr>)"
  using assms
  by (auto simp: SJF_dispatch_def bind_err_def peek_def dequeue_def Let_def is_empty_q_def
      split: list.splits if_splits)

lemma SJF_tick_phases:
  "SJF_tick s = Inr s' \<Longrightarrow> \<exists>s1 s2. SJF_arrive s = Inr s1 \<and> SJF_dispatch s1 = Inr s2 \<and> s' = SJF_progress s2"
  by (auto simp: SJF_tick_def dest!: bind_err_Inr)











subsection \<open>Round-Robin\<close>

lemma RR_arrive_cases:
  assumes "RR_arrive s = Inr s'"
  shows "s' = s \<or> (\<exists>x xs. pre s = x # xs \<and> arrival x = time s \<and> s' = s\<lparr>pre := xs, ready := ready s @ [x]\<rparr>)"
  using assms
  by (auto simp: RR_arrive_def bind_err_def peek_def dequeue_def is_empty_q_def enqueue_def
      split: list.splits if_splits)

lemma RR_dispatch_cases:
  assumes "RR_dispatch s = Inr s'"
  shows "s' = s \<or> (\<exists>x xs. ready s = x # xs \<and> arrival x \<le> time s \<and> temp s = None \<and>
           s' = s\<lparr>ready := xs, temp := Some (x\<lparr>waiting := time s - timeout x, execute := 0\<rparr>),
                  total_waiting := total_waiting s + (time s - timeout x)\<rparr>)"
  using assms
  by (auto simp: RR_dispatch_def bind_err_def peek_def dequeue_def Let_def
      split: list.splits if_splits)

lemma RR_timeout_cases:
  assumes "RR_timeout t s = Inr s'"
  shows "(\<exists>x. temp s = Some x \<and> execute x \<noteq> t \<and> s' = s) \<or>
         (\<exists>x z zs. temp s = Some x \<and> execute x = t \<and> ready s @ [x\<lparr>timeout := time s\<rparr>] = z # zs \<and>
            s' = s\<lparr>total_turnaround := total_turnaround s + (execute x + waiting x),
                   total_response := total_response s + waiting x,
                   ready := zs,
                   temp := Some (z\<lparr>waiting := time s - timeout z, execute := 0\<rparr>),
                   total_waiting := total_waiting s + (time s - timeout z)\<rparr>)"
  using assms
  by (auto simp: RR_timeout_def bind_err_def dequeue_def enqueue_def Let_def
      split: list.splits if_splits option.splits)

lemma RR_progress_cases:
  assumes "RR_progress t s = Inr s'"
  shows "\<exists>x. temp s = Some x \<and>
          ((remain x = 1 \<and>
             s' = s\<lparr>gantt := gantt s @ [x], time := time s + 1,
                    total_turnaround := total_turnaround s + (execute x + 1 + waiting x),
                    total_response := total_response s + waiting x,
                    result := result s @ [x\<lparr>remain := 0, execute := execute x + 1\<rparr>],
                    terminate := terminate s + 1, temp := None\<rparr>) \<or>
           (remain x \<noteq> 1 \<and>
             s' = s\<lparr>gantt := gantt s @ [x], time := time s + 1,
                    temp := Some (x\<lparr>remain := remain x - 1, execute := execute x + 1\<rparr>)\<rparr>))"
proof (cases "temp s")
  case None
  with assms show ?thesis by (simp add: RR_progress_def)
next
  case (Some x)
  show ?thesis
  proof (cases "remain x = 1")
    case True
    with assms Some show ?thesis by (simp add: RR_progress_def Let_def split: if_splits)
  next
    case False
    with assms Some show ?thesis by (simp add: RR_progress_def Let_def split: if_splits)
  qed
qed

lemma RR_tick_phases:
  "RR_tick t s = Inr s' \<Longrightarrow> \<exists>s1 s2 s3. RR_arrive s = Inr s1 \<and> RR_dispatch s1 = Inr s2 \<and>
     RR_timeout t s2 = Inr s3 \<and> RR_progress t s3 = Inr s'"
  by (auto simp: RR_tick_def dest!: bind_err_Inr)

lemma RR_dispatch_with_EmptyQueue: "RR_dispatch_with (Inl EmptyQueue) s = RR_dispatch s"
  by (simp add: RR_dispatch_with_def RR_dispatch_def peek_with_EmptyQueue)

lemma RR_tick_with_EmptyQueue: "RR_tick_with (Inl EmptyQueue) t s = RR_tick t s"
  by (simp add: RR_tick_with_def RR_tick_def RR_dispatch_with_EmptyQueue)

lemma RR_with_EmptyQueue: "RR_with (Inl EmptyQueue) fuel p t q = RR fuel p t q"
proof -
  have "RR_tick_with (Inl EmptyQueue) t = RR_tick t"
    by (rule ext) (rule RR_tick_with_EmptyQueue)
  then show ?thesis by (simp add: RR_with_def RR_def)
qed













subsection \<open>Runs of the loop\<close>

lemma loop_add:
  "loop tick (k + m) n s =
     (case after tick k n s of Inl e \<Rightarrow> Some (Inl e) | Inr s' \<Rightarrow> loop tick m n s')"
proof (induction k arbitrary: s)
  case 0
  show ?case by simp
next
  case (Suc k)
  show ?case
  proof (cases "terminate s < n")
    case True
    then show ?thesis using Suc.IH by (cases "tick s") (simp_all add: bind_err_def)
  next
    case False
    then show ?thesis by (cases m) simp_all
  qed
qed

lemma loop_error:
  assumes "\<And>s e. tick s = Inl e \<Longrightarrow> P e"
  shows "loop tick fuel n s = Some (Inl e) \<Longrightarrow> P e"
proof (induction fuel arbitrary: s)
  case 0
  then show ?case by (simp split: if_splits)
next
  case (Suc k)
  then show ?case using assms by (auto split: if_splits sum.splits)
qed

lemma bind_err_Inl: "bind_err m f = Inl e \<Longrightarrow> m = Inl e \<or> (\<exists>x. m = Inr x \<and> f x = Inl e)"
  by (cases m) (simp_all add: bind_err_def)

lemma peek_error: "peek q = Inl e \<Longrightarrow> e = EmptyQueue"
  by (cases q) (simp_all add: peek_def)

lemma dequeue_error: "dequeue q = Inl e \<Longrightarrow> e = EmptyQueue"
  by (cases q) (simp_all add: dequeue_def)

lemma RR_arrive_error: "RR_arrive s = Inl e \<Longrightarrow> e = EmptyQueue"
  by (auto simp: RR_arrive_def dest!: bind_err_Inl dest: peek_error dequeue_error split: if_splits)

lemma RR_dispatch_error: "RR_dispatch s = Inl e \<Longrightarrow> e = EmptyQueue"
  by (auto simp: RR_dispatch_def Let_def dest!: bind_err_Inl dest: peek_error dequeue_error split: if_splits)

lemma RR_timeout_error: "RR_timeout t s = Inl e \<Longrightarrow> e = EmptyQueue \<or> e = NullPointer"
  by (auto simp: RR_timeout_def Let_def dest!: bind_err_Inl dest: dequeue_error
      split: if_splits option.splits)

lemma RR_progress_error: "RR_progress t s = Inl e \<Longrightarrow> e = NullPointer"
  by (auto simp: RR_progress_def Let_def split: if_splits option.splits)

lemma RR_tick_error: "RR_tick t s = Inl e \<Longrightarrow> e = EmptyQueue \<or> e = NullPointer"
  by (auto simp: RR_tick_def dest!: bind_err_Inl
      dest: RR_arrive_error RR_dispatch_error RR_timeout_error RR_progress_error)

subsection \<open>SJF: no failing operation, and a run that never ends\<close>

lemma SJF_arrive_total: "\<exists>s'. SJF_arrive s = Inr s'"
  by (cases "pre s") (simp_all add: SJF_arrive_def is_empty_q_def bind_err_def peek_def dequeue_def)

lemma SJF_dispatch_total: "\<exists>s'. SJF_dispatch s = Inr s'"
  by (cases "ready s") (simp_all add: SJF_dispatch_def is_empty_q_def bind_err_def peek_def dequeue_def Let_def)

lemma SJF_tick_total: "SJF_tick s \<noteq> Inl e"
proof -
  obtain s1 where "SJF_arrive s = Inr s1" using SJF_arrive_total by blast
  moreover obtain s2 where "SJF_dispatch s1 = Inr s2" using SJF_dispatch_total by blast
  ultimately show ?thesis by (simp add: SJF_tick_def bind_err_def)
qed

lemma SJF_never_fails: "SJF fuel p \<noteq> Some (Inl e)"
proof
  assume "SJF fuel p = Some (Inl e)"
  then have "loop SJF_tick fuel (int (length p)) (SJF_init p) = Some (Inl e)" by (simp add: SJF_def)
  with loop_error [where tick = SJF_tick and P = "\<lambda>e. False"] SJF_tick_total
  show False by blast
qed

lemma SJF_tick_stuck:
  assumes "pre s = x # xs" "arrival x < time s" "ready s = []" "temp s = None"
  shows "SJF_tick s = Inr (s\<lparr>time := time s + 1\<rparr>)"
  using assms
  by (simp add: SJF_tick_def SJF_arrive_def SJF_dispatch_def SJF_progress_def bind_err_def
      peek_def is_empty_q_def Let_def)

lemma SJF_loop_stuck:
  "pre s = x # xs \<Longrightarrow> arrival x < time s \<Longrightarrow> ready s = [] \<Longrightarrow> temp s = None \<Longrightarrow>
   terminate s < n \<Longrightarrow> loop SJF_tick fuel n s = None"
proof (induction fuel arbitrary: s)
  case 0
  then show ?case by simp
next
  case (Suc k)
  have t: "SJF_tick s = Inr (s\<lparr>time := time s + 1\<rparr>)"
    using Suc.prems by (simp add: SJF_tick_stuck)
  have "loop SJF_tick k n (s\<lparr>time := time s + 1\<rparr>) = None"
    using Suc.prems by (intro Suc.IH) simp_all
  with t Suc.prems show ?case by simp
qed

subsection \<open>The caller's array\<close>

lemma FCFS_tick_input: "FCFS_tick s = Inr s' \<Longrightarrow> input_p s' = input_p s"
  by (auto dest!: FCFS_tick_phases FCFS_arrive_cases FCFS_dispatch_cases
      simp: FCFS_progress_def Let_def split: option.splits)

lemma SJF_tick_input: "SJF_tick s = Inr s' \<Longrightarrow> input_p s' = input_p s"
  by (auto dest!: SJF_tick_phases SJF_arrive_cases SJF_dispatch_cases
      simp: SJF_progress_def Let_def split: option.splits)

lemma RR_tick_input: "RR_tick t s = Inr s' \<Longrightarrow> input_p s' = input_p s"
  by (auto dest!: RR_tick_phases RR_arrive_cases RR_dispatch_cases RR_timeout_cases RR_progress_cases)

lemma loop_after: "loop tick fuel n s = Some (Inr out) \<Longrightarrow> after tick fuel n s = Inr out"
proof (induction fuel arbitrary: s)
  case 0
  then show ?case by (simp split: if_splits)
next
  case (Suc k)
  then show ?case by (auto simp: bind_err_def split: if_splits sum.splits)
qed

subsection \<open>Records that have not run\<close>

lemma fresh_Nil: "fresh []"
  by (simp add: fresh_def)

lemma fresh_Cons: "fresh (x # xs) \<longleftrightarrow> remain x = burst x \<and> fresh xs"
  by (simp add: fresh_def)

lemma fresh_append: "fresh (xs @ ys) \<longleftrightarrow> fresh xs \<and> fresh ys"
  by (simp add: fresh_def)

lemma fresh_set: "fresh q \<longleftrightarrow> (\<forall>r\<in>set q. remain r = burst r)"
  by (simp add: fresh_def list_all_iff)

lemma fresh_sort_q: "fresh (sort_q q cmp) \<longleftrightarrow> fresh q"
  by (simp add: fresh_set set_sort_q)

lemma place_burst_remain:
  "remain x = burst x \<Longrightarrow> fresh ys \<Longrightarrow> place compare_for_SJF x ys = place compare_for_remain x ys"
  by (induction ys) (simp_all add: fresh_Cons compare_for_SJF_def compare_for_remain_def)

lemma sort_q_burst_remain:
  "fresh q \<Longrightarrow> sort_q q compare_for_SJF = sort_q q compare_for_remain"
proof (induction q)
  case Nil
  show ?case by (simp add: sort_q_def)
next
  case (Cons x xs)
  then have "remain x = burst x" and xs: "fresh xs" by (simp_all add: fresh_Cons)
  moreover have "fresh (sort_q xs compare_for_remain)" using xs by (simp add: fresh_sort_q)
  moreover have "sort_q xs compare_for_SJF = sort_q xs compare_for_remain" using xs by (rule Cons.IH)
  ultimately show ?case
    using place_burst_remain [of x "sort_q xs compare_for_remain"] by (simp add: sort_q_def)
qed

lemma FCFS_fresh_arrive:
  "fresh (pre s) \<Longrightarrow> fresh (ready s) \<Longrightarrow> FCFS_arrive s = Inr s' \<Longrightarrow> fresh (pre s') \<and> fresh (ready s')"
  by (drule FCFS_arrive_cases) (auto simp: fresh_Cons fresh_append fresh_Nil)

lemma FCFS_fresh_dispatch:
  "fresh (pre s) \<Longrightarrow> fresh (ready s) \<Longrightarrow> FCFS_dispatch s = Inr s' \<Longrightarrow> fresh (pre s') \<and> fresh (ready s')"
  by (drule FCFS_dispatch_cases) (auto simp: fresh_Cons)

lemma FCFS_fresh_progress:
  "pre (FCFS_progress s) = pre s \<and> ready (FCFS_progress s) = ready s"
  by (simp add: FCFS_progress_def Let_def split: option.splits)

lemma FCFS_fresh_tick:
  assumes "fresh (pre s) \<and> fresh (ready s)" and "FCFS_tick s = Inr s'"
  shows "fresh (pre s') \<and> fresh (ready s')"
proof -
  from assms(2) obtain s1 s2 where
    a: "FCFS_arrive s = Inr s1" and d: "FCFS_dispatch s1 = Inr s2" and p: "s' = FCFS_progress s2"
    by (blast dest: FCFS_tick_phases)
  from assms(1) a have "fresh (pre s1) \<and> fresh (ready s1)"
    using FCFS_fresh_arrive [of s s1] by simp
  with d have "fresh (pre s2) \<and> fresh (ready s2)"
    using FCFS_fresh_dispatch [of s1 s2] by simp
  with p show ?thesis by (simp add: FCFS_fresh_progress)
qed

lemma SJF_fresh_arrive:
  "fresh (pre s) \<Longrightarrow> fresh (ready s) \<Longrightarrow> SJF_arrive s = Inr s' \<Longrightarrow> fresh (pre s') \<and> fresh (ready s')"
  by (drule SJF_arrive_cases) (auto simp: fresh_Cons fresh_append fresh_Nil fresh_sort_q)

lemma SJF_fresh_dispatch:
  "fresh (pre s) \<Longrightarrow> fresh (ready s) \<Longrightarrow> SJF_dispatch s = Inr s' \<Longrightarrow> fresh (pre s') \<and> fresh (ready s')"
  by (drule SJF_dispatch_cases) (auto simp: fresh_Cons)

lemma SJF_fresh_progress:
  "pre (SJF_progress s) = pre s \<and> ready (SJF_progress s) = ready s"
  by (simp add: SJF_progress_def Let_def split: option.splits)

lemma SJF_fresh_tick:
  assumes "fresh (pre s) \<and> fresh (ready s)" and "SJF_tick s = Inr s'"
  shows "fresh (pre s') \<and> fresh (ready s')"
proof -
  from assms(2) obtain s1 s2 where
    a: "SJF_arrive s = Inr s1" and d: "SJF_dispatch s1 = Inr s2" and p: "s' = SJF_progress s2"
    by (blast dest: SJF_tick_phases)
  from assms(1) a have "fresh (pre s1) \<and> fresh (ready s1)"
    using SJF_fresh_arrive [of s s1] by simp
  with d have "fresh (pre s2) \<and> fresh (ready s2)"
    using SJF_fresh_dispatch [of s1 s2] by simp
  with p show ?thesis by (simp add: SJF_fresh_progress)
qed

lemma FCFS_fresh_after:
  assumes "fresh p" and "after FCFS_tick k n (FCFS_init p) = Inr s"
  shows "fresh (pre s) \<and> fresh (ready s)"
proof (rule after_invariant [where I = "\<lambda>s. fresh (pre s) \<and> fresh (ready s)" and tick = FCFS_tick, OF _ _ assms(2)])
  show "fresh (pre (FCFS_init p)) \<and> fresh (ready (FCFS_init p))"
    using assms(1) by (simp add: FCFS_init_def start_def fresh_sort_q foldl_enqueue init_queue_def fresh_Nil)
qed (rule FCFS_fresh_tick)

lemma SJF_fresh_after:
  assumes "fresh p" and "after SJF_tick k n (SJF_init p) = Inr s"
  shows "fresh (pre s) \<and> fresh (ready s)"
proof (rule after_invariant [where I = "\<lambda>s. fresh (pre s) \<and> fresh (ready s)" and tick = SJF_tick, OF _ _ assms(2)])
  show "fresh (pre (SJF_init p)) \<and> fresh (ready (SJF_init p))"
    using assms(1) by (simp add: SJF_init_def start_def foldl_enqueue init_queue_def fresh_Nil)
qed (rule SJF_fresh_tick)

subsection \<open>The ready queue of SJF\<close>

lemma compare_for_SJF_le: "compare_for_SJF a b \<le> 0 \<longleftrightarrow> burst a \<le> burst b"
  by (simp add: compare_for_SJF_def)

lemma place_by_burst:
  "sorted_wrt (\<lambda>a b. burst a \<le> burst b) ys \<Longrightarrow>
   sorted_wrt (\<lambda>a b. burst a \<le> burst b) (place compare_for_SJF x ys)"
  by (induction ys) (auto simp: compare_for_SJF_le set_place)

lemma sort_q_by_burst: "sorted_wrt (\<lambda>a b. burst a \<le> burst b) (sort_q q compare_for_SJF)"
  by (induction q) (simp_all add: sort_q_def place_by_burst)

lemma SJF_ready_inv_arrive:
  "SJF_ready_inv s \<Longrightarrow> SJF_arrive s = Inr s' \<Longrightarrow> SJF_ready_inv s' \<and> time s' = time s"
  by (drule SJF_arrive_cases)
    (auto simp: SJF_ready_inv_def sort_q_by_burst set_sort_q fresh_sort_q fresh_append fresh_Cons
      fresh_Nil)

lemma SJF_ready_inv_dispatch:
  "SJF_ready_inv s \<Longrightarrow> SJF_dispatch s = Inr s' \<Longrightarrow> SJF_ready_inv s' \<and> time s' = time s"
  by (drule SJF_dispatch_cases) (auto simp: SJF_ready_inv_def fresh_Cons)

lemma SJF_ready_inv_progress:
  "SJF_ready_inv s \<Longrightarrow> SJF_ready_inv (SJF_progress s)"
  by (auto simp: SJF_ready_inv_def SJF_progress_def Let_def split: option.splits)

lemma SJF_ready_inv_tick:
  assumes "SJF_ready_inv s" and "SJF_tick s = Inr s'"
  shows "SJF_ready_inv s'"
proof -
  from assms(2) obtain s1 s2 where
    a: "SJF_arrive s = Inr s1" and d: "SJF_dispatch s1 = Inr s2" and p: "s' = SJF_progress s2"
    by (blast dest: SJF_tick_phases)
  from assms(1) a have "SJF_ready_inv s1"
    using SJF_ready_inv_arrive [of s s1] by simp
  with d have "SJF_ready_inv s2"
    using SJF_ready_inv_dispatch [of s1 s2] by simp
  with p show ?thesis by (simp add: SJF_ready_inv_progress)
qed

lemma SJF_ready_inv_after:
  assumes "fresh p" and "after SJF_tick k n (SJF_init p) = Inr s"
  shows "SJF_ready_inv s"
proof (rule after_invariant [where I = SJF_ready_inv and tick = SJF_tick, OF _ _ assms(2)])
  show "SJF_ready_inv (SJF_init p)"
    using assms(1)
    by (simp add: SJF_ready_inv_def SJF_init_def start_def foldl_enqueue init_queue_def fresh_Nil)
qed (rule SJF_ready_inv_tick)

lemma place_front:
  "\<forall>y\<in>set ys. burst x \<le> burst y \<Longrightarrow> place compare_for_SJF x ys = x # ys"
  by (cases ys) (simp_all add: compare_for_SJF_le)

lemma foldr_place_behind:
  "sorted_wrt (\<lambda>a b. burst a \<le> burst b) ys \<Longrightarrow>
   foldr (place compare_for_SJF) ys [x]
     = takeWhile (\<lambda>r. burst r \<le> burst x) ys @ x # dropWhile (\<lambda>r. burst r \<le> burst x) ys"
proof (induction ys)
  case Nil
  show ?case by simp
next
  case (Cons y ys)
  then have le: "\<forall>z\<in>set ys. burst y \<le> burst z"
    and IH: "foldr (place compare_for_SJF) ys [x]
      = takeWhile (\<lambda>r. burst r \<le> burst x) ys @ x # dropWhile (\<lambda>r. burst r \<le> burst x) ys"
    by simp_all
  show ?case
  proof (cases "burst y \<le> burst x")
    case True
    have "\<forall>z\<in>set (takeWhile (\<lambda>r. burst r \<le> burst x) ys @ x # dropWhile (\<lambda>r. burst r \<le> burst x) ys).
            burst y \<le> burst z"
      using le True by (auto dest: set_takeWhileD set_dropWhileD)
    then show ?thesis using True IH by (simp add: place_front)
  next
    case False
    with le have "\<forall>z\<in>set ys. \<not> burst z \<le> burst x" by force
    then have "takeWhile (\<lambda>r. burst r \<le> burst x) ys = []"
      and "dropWhile (\<lambda>r. burst r \<le> burst x) ys = ys"
      by (cases ys; simp)+
    with IH have "foldr (place compare_for_SJF) ys [x] = x # ys" by simp
    with False le show ?thesis by (simp add: compare_for_SJF_le place_front)
  qed
qed

lemma sort_q_behind:
  "sorted_wrt (\<lambda>a b. burst a \<le> burst b) ys \<Longrightarrow>
   sort_q (timeout_q ys x) compare_for_SJF
     = takeWhile (\<lambda>r. burst r \<le> burst x) ys @ x # dropWhile (\<lambda>r. burst r \<le> burst x) ys"
  by (simp add: sort_q_def enqueue_def foldr_place_behind)

section \<open>Claims\<close>

text \<open>
  C1 (quantum expiry). The bound that \<^verbatim>\<open>RR\<close> compares \<open>execute\<close> with is its parameter
  \<^verbatim>\<open>t\<close>, not the quantum \<^verbatim>\<open>q\<close>: a run is the same whatever \<open>q\<close> is. On \<open>P0(arrival 0,
  burst 3)\<close>, \<open>P1(arrival 1, burst 1)\<close> with \<open>t = 4\<close> (the total burst) and \<open>q = 2\<close>: at
  tick 2 the running \<open>P0\<close> has \<open>execute = 2 = q\<close> and \<open>remain = 1\<close>, yet it keeps the
  CPU and finishes at tick 3, before \<open>P1\<close> runs at all. With the bound 2 passed as \<open>t\<close>
  the same records are run \<open>P0, P0, P1, P0\<close>.
\<close>

theorem RR_bound_is_t_not_q:
  "RR fuel p t q = RR fuel p t q' \<and>
   map_sum id (\<lambda>s. (time s, map_option (\<lambda>r. (processID r, execute r, remain r)) (temp s),
       map processID (ready s)))
     (after (RR_tick 4) 2 2 (RR_init [proc 0 0 3, proc 1 1 1])) = Inr (2, Some (0, 2, 1), [1]) \<and>
   map_sum id (\<lambda>s. (time s, map_option (\<lambda>r. (processID r, execute r, remain r)) (temp s),
       map processID (ready s), map (\<lambda>r. (processID r, execute r)) (result s)))
     (after (RR_tick 4) 3 2 (RR_init [proc 0 0 3, proc 1 1 1])) = Inr (3, None, [1], [(0, 3)]) \<and>
   map_option (map_sum id (\<lambda>s. (map processID (result s), map processID (gantt s))))
     (RR 4 [proc 0 0 3, proc 1 1 1] 4 2) = Some (Inr ([0, 1], [0, 0, 0, 1])) \<and>
   map_option (map_sum id (\<lambda>s. (map processID (result s), map processID (gantt s))))
     (RR 4 [proc 0 0 3, proc 1 1 1] 2 4) = Some (Inr ([1, 0], [0, 0, 1, 0]))"
proof -
  have "RR fuel p t q = RR fuel p t q'"
    by (simp add: RR_def)
  moreover have "map_sum id (\<lambda>s. (time s, map_option (\<lambda>r. (processID r, execute r, remain r)) (temp s),
       map processID (ready s)))
     (after (RR_tick 4) 2 2 (RR_init [proc 0 0 3, proc 1 1 1])) = Inr (2, Some (0, 2, 1), [1])"
    by code_simp
  moreover have "map_sum id (\<lambda>s. (time s, map_option (\<lambda>r. (processID r, execute r, remain r)) (temp s),
       map processID (ready s), map (\<lambda>r. (processID r, execute r)) (result s)))
     (after (RR_tick 4) 3 2 (RR_init [proc 0 0 3, proc 1 1 1])) = Inr (3, None, [1], [(0, 3)])"
    by code_simp
  moreover have "map_option (map_sum id (\<lambda>s. (map processID (result s), map processID (gantt s))))
     (RR 4 [proc 0 0 3, proc 1 1 1] 4 2) = Some (Inr ([0, 1], [0, 0, 0, 1]))"
    by code_simp
  moreover have "map_option (map_sum id (\<lambda>s. (map processID (result s), map processID (gantt s))))
     (RR 4 [proc 0 0 3, proc 1 1 1] 2 4) = Some (Inr ([1, 0], [0, 0, 1, 0]))"
    by code_simp
  ultimately show ?thesis by blast
qed

text \<open>
  C2 (admission). One pass of the loop admits at most one record: the admission of
  FCFS, of RR and of SJF takes at most one record out of \<open>pre\<close> and puts at most one
  into \<open>ready\<close>. With \<open>P0\<close> and \<open>P1\<close> both arriving at tick 0, \<open>P1\<close> is never admitted:
  FCFS and RR end on the empty ready queue, and the loop of SJF is still running
  whatever the fuel.
\<close>

theorem admission_takes_one_record:
  "(FCFS_arrive s = Inr s' \<longrightarrow>
      length (pre s) \<le> Suc (length (pre s')) \<and> length (ready s') \<le> Suc (length (ready s))) \<and>
   (RR_arrive s = Inr s' \<longrightarrow>
      length (pre s) \<le> Suc (length (pre s')) \<and> length (ready s') \<le> Suc (length (ready s))) \<and>
   (SJF_arrive j = Inr j' \<longrightarrow>
      length (pre j) \<le> Suc (length (pre j')) \<and> length (ready j') \<le> Suc (length (ready j))) \<and>
   FCFS (2 + k) [proc 0 0 1, proc 1 0 1] = Some (Inl EmptyQueue) \<and>
   RR (2 + k) [proc 0 0 1, proc 1 0 1] 2 2 = Some (Inl EmptyQueue) \<and>
   SJF fuel [proc_sjf 0 0 1, proc_sjf 1 0 1] = None"
proof -
  have "after FCFS_tick 2 (int (length [proc 0 0 1, proc 1 0 1])) (FCFS_init [proc 0 0 1, proc 1 0 1])
          = Inl EmptyQueue"
    by code_simp
  then have f: "FCFS (2 + k) [proc 0 0 1, proc 1 0 1] = Some (Inl EmptyQueue)"
    by (simp only: FCFS_def loop_add sum.case)
  have "after (RR_tick 2) 2 (int (length [proc 0 0 1, proc 1 0 1])) (RR_init [proc 0 0 1, proc 1 0 1])
          = Inl EmptyQueue"
    by code_simp
  then have r: "RR (2 + k) [proc 0 0 1, proc 1 0 1] 2 2 = Some (Inl EmptyQueue)"
    by (simp only: RR_def loop_add sum.case)
  have j: "SJF fuel [proc_sjf 0 0 1, proc_sjf 1 0 1] = None"
  proof (cases fuel)
    case 0
    then show ?thesis by (simp add: SJF_def SJF_init_def start_def)
  next
    case (Suc m)
    let ?s1 = "(SJF_init [proc_sjf 0 0 1, proc_sjf 1 0 1])
                 \<lparr>pre := [proc_sjf 1 0 1], time := 1, terminate := 1,
                  total_turnaround := 1,
                  result := [(proc_sjf 0 0 1)\<lparr>remain := 0, turnaround := 1\<rparr>]\<rparr>"
    have one: "after SJF_tick 1 (int (length [proc_sjf 0 0 1, proc_sjf 1 0 1]))
                 (SJF_init [proc_sjf 0 0 1, proc_sjf 1 0 1]) = Inr ?s1"
      by code_simp
    have "loop SJF_tick m (int (length [proc_sjf 0 0 1, proc_sjf 1 0 1])) ?s1 = None"
      by (rule SJF_loop_stuck [where x = "proc_sjf 1 0 1" and xs = "[]"])
        (simp_all add: proc_sjf_def SJF_init_def start_def init_queue_def)
    with one have "loop SJF_tick (1 + m) (int (length [proc_sjf 0 0 1, proc_sjf 1 0 1]))
                 (SJF_init [proc_sjf 0 0 1, proc_sjf 1 0 1]) = None"
      by (simp only: loop_add sum.case)
    with Suc show ?thesis by (simp add: SJF_def)
  qed
  have g: "(FCFS_arrive s = Inr s' \<longrightarrow>
      length (pre s) \<le> Suc (length (pre s')) \<and> length (ready s') \<le> Suc (length (ready s))) \<and>
   (RR_arrive s = Inr s' \<longrightarrow>
      length (pre s) \<le> Suc (length (pre s')) \<and> length (ready s') \<le> Suc (length (ready s))) \<and>
   (SJF_arrive j = Inr j' \<longrightarrow>
      length (pre j) \<le> Suc (length (pre j')) \<and> length (ready j') \<le> Suc (length (ready j)))"
    by (auto dest!: FCFS_arrive_cases RR_arrive_cases SJF_arrive_cases simp: length_sort_q)
  from g f r j show ?thesis by blast
qed

text \<open>
  The admission of tick 0 on \<open>P0(arrival 0, burst 1)\<close>, \<open>P1(arrival 0, burst 1)\<close>: in each
  engine it moves \<open>P0\<close> only, and \<open>P1\<close> is left in \<open>pre\<close> with its arrival time reached.
\<close>

theorem simultaneous_arrivals_not_admitted:
  "map_sum id (\<lambda>s. (time s, map processID (ready s), map (\<lambda>r. (processID r, arrival r)) (pre s)))
     (FCFS_arrive (FCFS_init [proc 0 0 1, proc 1 0 1])) = Inr (0, [0], [(1, 0)]) \<and>
   map_sum id (\<lambda>s. (time s, map processID (ready s), map (\<lambda>r. (processID r, arrival r)) (pre s)))
     (RR_arrive (RR_init [proc 0 0 1, proc 1 0 1])) = Inr (0, [0], [(1, 0)]) \<and>
   map_sum id (\<lambda>s. (time s, map processID (ready s), map (\<lambda>r. (processID r, arrival r)) (pre s)))
     (SJF_arrive (SJF_init [proc_sjf 0 0 1, proc_sjf 1 0 1])) = Inr (0, [0], [(1, 0)]) \<and>
   (case FCFS_arrive (FCFS_init [proc 0 0 1, proc 1 0 1]) of
      Inr s \<Rightarrow> length (ready s) \<le> 1 | Inl e \<Rightarrow> False) \<and>
   FCFS 2 [proc 0 0 1, proc 1 0 1] = Some (Inl EmptyQueue) \<and>
   RR 2 [proc 0 0 1, proc 1 0 1] 2 2 = Some (Inl EmptyQueue) \<and>
   SJF 1000 [proc_sjf 0 0 1, proc_sjf 1 0 1] = None"
proof -
  have a: "map_sum id (\<lambda>s. (time s, map processID (ready s), map (\<lambda>r. (processID r, arrival r)) (pre s)))
     (FCFS_arrive (FCFS_init [proc 0 0 1, proc 1 0 1])) = Inr (0, [0], [(1, 0)])"
    by code_simp
  have b: "map_sum id (\<lambda>s. (time s, map processID (ready s), map (\<lambda>r. (processID r, arrival r)) (pre s)))
     (RR_arrive (RR_init [proc 0 0 1, proc 1 0 1])) = Inr (0, [0], [(1, 0)])"
    by code_simp
  have c: "map_sum id (\<lambda>s. (time s, map processID (ready s), map (\<lambda>r. (processID r, arrival r)) (pre s)))
     (SJF_arrive (SJF_init [proc_sjf 0 0 1, proc_sjf 1 0 1])) = Inr (0, [0], [(1, 0)])"
    by code_simp
  from a obtain s where s: "FCFS_arrive (FCFS_init [proc 0 0 1, proc 1 0 1]) = Inr s"
    by (cases "FCFS_arrive (FCFS_init [proc 0 0 1, proc 1 0 1])") simp_all
  from admission_takes_one_record [of "FCFS_init [proc 0 0 1, proc 1 0 1]" s] s
  have d: "length (ready s) \<le> 1"
    by (simp add: FCFS_init_def start_def init_queue_def)
  have f: "FCFS 2 [proc 0 0 1, proc 1 0 1] = Some (Inl EmptyQueue)"
    by code_simp
  have r: "RR 2 [proc 0 0 1, proc 1 0 1] 2 2 = Some (Inl EmptyQueue)"
    by code_simp
  have j: "SJF 1000 [proc_sjf 0 0 1, proc_sjf 1 0 1] = None"
  proof -
    let ?s1 = "(SJF_init [proc_sjf 0 0 1, proc_sjf 1 0 1])
                 \<lparr>pre := [proc_sjf 1 0 1], time := 1, terminate := 1,
                  total_turnaround := 1,
                  result := [(proc_sjf 0 0 1)\<lparr>remain := 0, turnaround := 1\<rparr>]\<rparr>"
    have one: "after SJF_tick 1 (int (length [proc_sjf 0 0 1, proc_sjf 1 0 1]))
                 (SJF_init [proc_sjf 0 0 1, proc_sjf 1 0 1]) = Inr ?s1"
      by code_simp
    have "loop SJF_tick 999 (int (length [proc_sjf 0 0 1, proc_sjf 1 0 1])) ?s1 = None"
      by (rule SJF_loop_stuck [where x = "proc_sjf 1 0 1" and xs = "[]"])
        (simp_all add: proc_sjf_def SJF_init_def start_def init_queue_def)
    with one have "loop SJF_tick (1 + 999) (int (length [proc_sjf 0 0 1, proc_sjf 1 0 1]))
                 (SJF_init [proc_sjf 0 0 1, proc_sjf 1 0 1]) = None"
      by (simp only: loop_add sum.case)
    then show ?thesis by (simp add: SJF_def)
  qed
  from a b c s d f r j show ?thesis by simp
qed

text \<open>
  C3 (front of an empty queue). FCFS and RR call \<^verbatim>\<open>peek(&ready)\<close> on every tick. On the
  single process \<open>P0(arrival 0, burst 2)\<close> the ready queue is empty at tick 1, while
  \<open>P0\<close> runs, and the call fails with \<open>EmptyQueue\<close>. SJF tests \<^verbatim>\<open>is_empty_q\<close> before
  both of its queues and never fails.
\<close>

theorem peek_on_empty_ready_queue:
  "map_sum id (\<lambda>s. (time s, ready s, map_option processID (temp s)))
     (after FCFS_tick 1 1 (FCFS_init [proc 0 0 2])) = Inr (1, [], Some 0) \<and>
   FCFS (2 + k) [proc 0 0 2] = Some (Inl EmptyQueue) \<and>
   map_sum id (\<lambda>s. (time s, ready s, map_option processID (temp s)))
     (after (RR_tick 2) 1 1 (RR_init [proc 0 0 2])) = Inr (1, [], Some 0) \<and>
   RR (2 + k) [proc 0 0 2] 2 2 = Some (Inl EmptyQueue) \<and>
   SJF fuel ps \<noteq> Some (Inl e)"
proof -
  have a: "map_sum id (\<lambda>s. (time s, ready s, map_option processID (temp s)))
     (after FCFS_tick 1 1 (FCFS_init [proc 0 0 2])) = Inr (1, [], Some 0)"
    by code_simp
  have b: "map_sum id (\<lambda>s. (time s, ready s, map_option processID (temp s)))
     (after (RR_tick 2) 1 1 (RR_init [proc 0 0 2])) = Inr (1, [], Some 0)"
    by code_simp
  have "after FCFS_tick 2 (int (length [proc 0 0 2])) (FCFS_init [proc 0 0 2]) = Inl EmptyQueue"
    by code_simp
  then have f: "FCFS (2 + k) [proc 0 0 2] = Some (Inl EmptyQueue)"
    by (simp only: FCFS_def loop_add sum.case)
  have "after (RR_tick 2) 2 (int (length [proc 0 0 2])) (RR_init [proc 0 0 2]) = Inl EmptyQueue"
    by code_simp
  then have r: "RR (2 + k) [proc 0 0 2] 2 2 = Some (Inl EmptyQueue)"
    by (simp only: RR_def loop_add sum.case)
  from a b f r SJF_never_fails [of fuel ps e] show ?thesis by blast
qed

text \<open>
  C4 (SJF selection). What the dispatch of SJF selects, on records that come in with
  \<open>remain\<close> equal to \<open>burst\<close>: the front of the ready queue, a record of least remaining
  time among those of the ready queue. An admission puts the new record behind every
  ready record whose burst is not larger, so among equal bursts the record admitted
  first is served first. The ready queue holds the records admitted so far, not all
  those that have arrived.
\<close>

theorem SJF_takes_shortest_ready:
  "(fresh ps \<and> after SJF_tick k (int (length ps)) (SJF_init ps) = Inr s \<and>
    SJF_arrive s = Inr s1 \<and> temp s1 = None \<and> ready s1 \<noteq> [] \<and> SJF_dispatch s1 = Inr s2 \<longrightarrow>
      (\<exists>x xs. ready s1 = x # xs \<and> ready s2 = xs \<and>
         temp s2 = Some (x\<lparr>waiting := time s1 - arrival x\<rparr>) \<and>
         (\<forall>y \<in> set (ready s1). remain x \<le> remain y \<and> burst x \<le> burst y))) \<and>
   (fresh ps \<and> after SJF_tick k (int (length ps)) (SJF_init ps) = Inr s \<and>
    pre s = z # zs \<and> arrival z = time s \<longrightarrow>
      map_sum id ready (SJF_arrive s)
        = Inr (takeWhile (\<lambda>r. burst r \<le> burst z) (ready s) @ z #
               dropWhile (\<lambda>r. burst r \<le> burst z) (ready s)))"
proof (intro conjI impI; elim conjE)
  assume f: "fresh ps" and k: "after SJF_tick k (int (length ps)) (SJF_init ps) = Inr s"
    and a: "SJF_arrive s = Inr s1" and idle: "temp s1 = None" and ne: "ready s1 \<noteq> []"
    and d: "SJF_dispatch s1 = Inr s2"
  from f k have "SJF_ready_inv s" by (rule SJF_ready_inv_after)
  with a have inv: "SJF_ready_inv s1" using SJF_ready_inv_arrive [of s s1] by simp
  from ne obtain x xs where q: "ready s1 = x # xs" by (cases "ready s1") auto
  with inv have arr: "arrival x \<le> time s1" and le: "\<forall>y\<in>set xs. burst x \<le> burst y"
    and fr: "\<forall>y\<in>set (x # xs). remain y = burst y"
    by (auto simp: SJF_ready_inv_def fresh_set)
  from d q arr idle have "ready s2 = xs" "temp s2 = Some (x\<lparr>waiting := time s1 - arrival x\<rparr>)"
    by (auto simp: SJF_dispatch_def is_empty_q_def bind_err_def peek_def dequeue_def Let_def)
  moreover from le fr have "\<forall>y \<in> set (ready s1). remain x \<le> remain y \<and> burst x \<le> burst y"
    unfolding q by auto
  ultimately show "\<exists>x xs. ready s1 = x # xs \<and> ready s2 = xs \<and>
      temp s2 = Some (x\<lparr>waiting := time s1 - arrival x\<rparr>) \<and>
      (\<forall>y \<in> set (ready s1). remain x \<le> remain y \<and> burst x \<le> burst y)"
    using q by blast
next
  assume f: "fresh ps" and k: "after SJF_tick k (int (length ps)) (SJF_init ps) = Inr s"
    and p: "pre s = z # zs" and t: "arrival z = time s"
  from f k have "SJF_ready_inv s" by (rule SJF_ready_inv_after)
  then have "sorted_wrt (\<lambda>a b. burst a \<le> burst b) (ready s)" by (simp add: SJF_ready_inv_def)
  then have "sort_q (timeout_q (ready s) z) compare_for_SJF
     = takeWhile (\<lambda>r. burst r \<le> burst z) (ready s) @ z # dropWhile (\<lambda>r. burst r \<le> burst z) (ready s)"
    by (rule sort_q_behind)
  with p t show "map_sum id ready (SJF_arrive s)
        = Inr (takeWhile (\<lambda>r. burst r \<le> burst z) (ready s) @ z #
               dropWhile (\<lambda>r. burst r \<le> burst z) (ready s))"
    by (simp add: SJF_arrive_def is_empty_q_def bind_err_def peek_def dequeue_def)
qed

text \<open>
  With \<open>P0(arrival 0, burst 5)\<close> and \<open>P1(arrival 0, burst 1)\<close>, the dispatch of tick 0
  selects \<open>P0\<close>, with 5 units remaining, the shortest of the ready queue; \<open>P1\<close>, which has
  arrived too and has 1 unit remaining, is still in \<open>pre\<close>: the admission of tick 0 took
  one record only.
\<close>

theorem SJF_dispatch_misses_arrived_shorter_job:
  "fresh [proc_sjf 0 0 5, proc_sjf 1 0 1] \<and>
   map_sum id (\<lambda>s. (time s, temp s, map (\<lambda>r. (processID r, remain r)) (ready s),
       map (\<lambda>r. (processID r, arrival r, remain r)) (pre s)))
     (SJF_arrive (SJF_init [proc_sjf 0 0 5, proc_sjf 1 0 1])) = Inr (0, None, [(0, 5)], [(1, 0, 1)]) \<and>
   map_sum id (\<lambda>s. (time s, map_option (\<lambda>r. (processID r, remain r)) (temp s),
       map (\<lambda>r. (processID r, arrival r, remain r)) (pre s), ready s))
     (bind_err (SJF_arrive (SJF_init [proc_sjf 0 0 5, proc_sjf 1 0 1])) SJF_dispatch)
     = Inr (0, Some (0, 5), [(1, 0, 1)], []) \<and>
   (case SJF_arrive (SJF_init [proc_sjf 0 0 5, proc_sjf 1 0 1]) of
      Inr s1 \<Rightarrow>
        (case SJF_dispatch s1 of
           Inr s2 \<Rightarrow>
             (\<exists>x. temp s2 = Some x \<and> list_all (\<lambda>y. remain x \<le> remain y) (ready s1) \<and>
                list_ex (\<lambda>y. arrival y \<le> time s1 \<and> remain y < remain x) (pre s1))
         | Inl e \<Rightarrow> False)
    | Inl e \<Rightarrow> False)"
proof -
  let ?ps = "[proc_sjf 0 0 5, proc_sjf 1 0 1]"
  have f: "fresh ?ps" by code_simp
  have a: "map_sum id (\<lambda>s. (time s, temp s, map (\<lambda>r. (processID r, remain r)) (ready s),
       map (\<lambda>r. (processID r, arrival r, remain r)) (pre s)))
     (SJF_arrive (SJF_init ?ps)) = Inr (0, None, [(0, 5)], [(1, 0, 1)])"
    by code_simp
  have d: "map_sum id (\<lambda>s. (time s, map_option (\<lambda>r. (processID r, remain r)) (temp s),
       map (\<lambda>r. (processID r, arrival r, remain r)) (pre s), ready s))
     (bind_err (SJF_arrive (SJF_init ?ps)) SJF_dispatch) = Inr (0, Some (0, 5), [(1, 0, 1)], [])"
    by code_simp
  from a obtain s1 where s1: "SJF_arrive (SJF_init ?ps) = Inr s1"
    by (cases "SJF_arrive (SJF_init ?ps)") simp_all
  with a have t1: "time s1 = 0" "temp s1 = None"
    and r1: "map (\<lambda>r. (processID r, remain r)) (ready s1) = [(0, 5)]"
    and p1: "map (\<lambda>r. (processID r, arrival r, remain r)) (pre s1) = [(1, 0, 1)]"
    by simp_all
  from d s1 obtain s2 where s2: "SJF_dispatch s1 = Inr s2"
    by (cases "SJF_dispatch s1") (simp_all add: bind_err_def)
  from r1 have ne: "ready s1 \<noteq> []" by auto
  have k: "after SJF_tick 0 (int (length ?ps)) (SJF_init ?ps) = Inr (SJF_init ?ps)" by simp
  from SJF_takes_shortest_ready [of ?ps 0 "SJF_init ?ps" s1 s2] f k s1 t1 ne s2
  obtain x xs where q: "ready s1 = x # xs" and x: "temp s2 = Some (x\<lparr>waiting := time s1 - arrival x\<rparr>)"
    and m: "\<forall>y \<in> set (ready s1). remain x \<le> remain y"
    by blast
  from q r1 have rx: "remain x = 5" by auto
  from p1 obtain y where y: "pre s1 = [y]" "arrival y = 0" "remain y = 1" by (cases "pre s1") auto
  have "list_all (\<lambda>y. remain (x\<lparr>waiting := time s1 - arrival x\<rparr>) \<le> remain y) (ready s1)"
    using m by (simp add: list_all_iff)
  moreover have "list_ex (\<lambda>y. arrival y \<le> time s1 \<and> remain y < remain (x\<lparr>waiting := time s1 - arrival x\<rparr>)) (pre s1)"
    using y rx t1 by simp
  ultimately have "\<exists>x. temp s2 = Some x \<and> list_all (\<lambda>y. remain x \<le> remain y) (ready s1) \<and>
                list_ex (\<lambda>y. arrival y \<le> time s1 \<and> remain y < remain x) (pre s1)"
    using x by blast
  with f a d s1 s2 show ?thesis by simp
qed






text \<open>
  C8 (invalid quantum). What holds of a call with a quantum \<open>q \<le> 0\<close>: it does not fail
  with \<open>InvalidQuantum\<close>. \<open>q\<close> is not validated and not read, and the run is the same
  for every value of \<open>q\<close>.
\<close>

theorem RR_quantum_not_validated:
  "RR fuel p t q = RR fuel p t q' \<and> RR fuel p t q \<noteq> Some (Inl InvalidQuantum)"
proof -
  have "e = EmptyQueue \<or> e = NullPointer" if "RR fuel p t q = Some (Inl e)" for e
    by (rule loop_error [where tick = "RR_tick t" and P = "\<lambda>e. e = EmptyQueue \<or> e = NullPointer",
          OF RR_tick_error that [unfolded RR_def]])
  then have "RR fuel p t q \<noteq> Some (Inl InvalidQuantum)" by auto
  moreover have "RR fuel p t q = RR fuel p t q'" by (simp add: RR_def)
  ultimately show ?thesis by simp
qed

text \<open>
  C8 as stated fails: called with \<open>q = 0\<close> on \<open>P0(arrival 0, burst 1)\<close>, RR runs the
  process to its end and stores it in \<open>result\<close>.
\<close>

theorem RR_quantum_zero_runs:
  "RR 1 [proc 0 0 1] 1 0 \<noteq> Some (Inl InvalidQuantum) \<and>
   map_option (map_sum id terminate) (RR 1 [proc 0 0 1] 1 0) = Some (Inr 1) \<and>
   map_option (map_sum id result) (RR 1 [proc 0 0 1] 1 0)
     = Some (Inr [\<lparr>processID = 0, arrival = 0, burst = 1, remain = 0, prioity = 0, waiting = 0,
                  timeout = 0, execute = 1\<rparr>])"
  by code_simp

text \<open>
  C9 (the caller's array). The records are pushed into \<open>pre\<close> by value: \<open>pre\<close> starts as
  the list of the records of \<open>p\<close>, sorted by arrival under FCFS and RR. No pass of a loop
  writes to \<open>input_p\<close>: in every state that FCFS, SJF or RR reaches, and in the state a
  run leaves the loop with, the caller's array is the one that was passed.
\<close>

theorem input_unchanged:
  "pre (FCFS_init p) = sort_q p compare_for_arrival \<and>
   pre (SJF_init ps) = ps \<and>
   pre (RR_init p) = sort_q p compare_for_arrival \<and>
   (after FCFS_tick k (int (length p)) (FCFS_init p) = Inr s \<longrightarrow> input_p s = p) \<and>
   (FCFS fuel p = Some (Inr s) \<longrightarrow> input_p s = p) \<and>
   (after SJF_tick k (int (length ps)) (SJF_init ps) = Inr s' \<longrightarrow> input_p s' = ps) \<and>
   (SJF fuel ps = Some (Inr s') \<longrightarrow> input_p s' = ps) \<and>
   (after (RR_tick t) k (int (length p)) (RR_init p) = Inr s'' \<longrightarrow> input_p s'' = p) \<and>
   (RR fuel p t q = Some (Inr s'') \<longrightarrow> input_p s'' = p)"
proof -
  have f: "after FCFS_tick k n (FCFS_init p) = Inr s \<Longrightarrow> input_p s = p" for k n s
    by (rule after_invariant [where I = "\<lambda>s. input_p s = p" and tick = FCFS_tick and s = "FCFS_init p"])
      (simp_all add: FCFS_tick_input FCFS_init_def start_def)
  have j: "after SJF_tick k n (SJF_init ps) = Inr s \<Longrightarrow> input_p s = ps" for k n s
    by (rule after_invariant [where I = "\<lambda>s. input_p s = ps" and tick = SJF_tick and s = "SJF_init ps"])
      (simp_all add: SJF_tick_input SJF_init_def start_def)
  have r: "after (RR_tick t) k n (RR_init p) = Inr s \<Longrightarrow> input_p s = p" for k n s
    by (rule after_invariant [where I = "\<lambda>s. input_p s = p" and tick = "RR_tick t" and s = "RR_init p"])
      (simp_all add: RR_tick_input RR_init_def start_def)
  have c: "pre (FCFS_init p) = sort_q p compare_for_arrival \<and> pre (SJF_init ps) = ps \<and>
      pre (RR_init p) = sort_q p compare_for_arrival"
    by (simp add: FCFS_init_def SJF_init_def RR_init_def start_def foldl_enqueue init_queue_def)
  show ?thesis
    using c f j r by (auto simp: FCFS_def SJF_def RR_def dest!: loop_after)
qed

text \<open>
  Three runs on \<open>P0(arrival 0, burst 3)\<close>, \<open>P1(arrival 1, burst 1)\<close>: the copies in
  \<open>result\<close> have \<open>remain = 0\<close>, the caller's records are as they were.
\<close>

theorem input_unchanged_witness:
  "(case FCFS 4 [proc 0 0 3, proc 1 1 1] of
      Some (Inr s) \<Rightarrow> input_p s = [proc 0 0 3, proc 1 1 1] \<and> map remain (result s) = [0, 0]
    | _ \<Rightarrow> False) \<and>
   (case SJF 4 [proc_sjf 0 0 3, proc_sjf 1 1 1] of
      Some (Inr s) \<Rightarrow> input_p s = [proc_sjf 0 0 3, proc_sjf 1 1 1] \<and> map remain (result s) = [0, 0]
    | _ \<Rightarrow> False) \<and>
   (case RR 4 [proc 0 0 3, proc 1 1 1] 2 2 of
      Some (Inr s) \<Rightarrow> input_p s = [proc 0 0 3, proc 1 1 1] \<and> map remain (result s) = [0, 0]
    | _ \<Rightarrow> False)"
proof -
  have f: "map_option (map_sum id (\<lambda>s. map remain (result s))) (FCFS 4 [proc 0 0 3, proc 1 1 1])
             = Some (Inr [0, 0])"
    by code_simp
  have j: "map_option (map_sum id (\<lambda>s. map remain (result s))) (SJF 4 [proc_sjf 0 0 3, proc_sjf 1 1 1])
             = Some (Inr [0, 0])"
    by code_simp
  have r: "map_option (map_sum id (\<lambda>s. map remain (result s))) (RR 4 [proc 0 0 3, proc 1 1 1] 2 2)
             = Some (Inr [0, 0])"
    by code_simp
  note u = input_unchanged [where p = "[proc 0 0 3, proc 1 1 1]" and fuel = 4
      and ps = "[proc_sjf 0 0 3, proc_sjf 1 1 1]" and t = 2 and q = 2]
  from f u have "case FCFS 4 [proc 0 0 3, proc 1 1 1] of
      Some (Inr s) \<Rightarrow> input_p s = [proc 0 0 3, proc 1 1 1] \<and> map remain (result s) = [0, 0]
    | _ \<Rightarrow> False"
    by (auto split: option.splits sum.splits)
  moreover from j u have "case SJF 4 [proc_sjf 0 0 3, proc_sjf 1 1 1] of
      Some (Inr s) \<Rightarrow> input_p s = [proc_sjf 0 0 3, proc_sjf 1 1 1] \<and> map remain (result s) = [0, 0]
    | _ \<Rightarrow> False"
    by (auto split: option.splits sum.splits)
  moreover from r u have "case RR 4 [proc 0 0 3, proc 1 1 1] 2 2 of
      Some (Inr s) \<Rightarrow> input_p s = [proc 0 0 3, proc 1 1 1] \<and> map remain (result s) = [0, 0]
    | _ \<Rightarrow> False"
    by (auto split: option.splits sum.splits)
  ultimately show ?thesis by blast
qed

text \<open>
  C10 (records in the ready queue). Under FCFS and SJF, on records that come in with
  \<open>remain\<close> equal to \<open>burst\<close>, every record of the ready queue has \<open>remain\<close> equal to
  \<open>burst\<close>: at the head of the loop, after the admission and after the dispatch of any
  tick. So the sort that SJF runs at an admission, by \<open>burst\<close>, puts the queue in the
  order that sorting by \<open>remain\<close> would.
\<close>

theorem ready_records_keep_burst:
  "(fresh p \<and> after FCFS_tick k (int (length p)) (FCFS_init p) = Inr s \<longrightarrow>
      fresh (ready s) \<and>
      (\<forall>s1. FCFS_arrive s = Inr s1 \<longrightarrow> fresh (ready s1) \<and>
         (\<forall>s2. FCFS_dispatch s1 = Inr s2 \<longrightarrow> fresh (ready s2)))) \<and>
   (fresh ps \<and> after SJF_tick k (int (length ps)) (SJF_init ps) = Inr s' \<longrightarrow>
      fresh (ready s') \<and>
      (\<forall>s1. SJF_arrive s' = Inr s1 \<longrightarrow> fresh (ready s1) \<and>
         (\<forall>s2. SJF_dispatch s1 = Inr s2 \<longrightarrow> fresh (ready s2))) \<and>
      (\<forall>x xs. pre s' = x # xs \<longrightarrow>
         sort_q (timeout_q (ready s') x) compare_for_SJF
           = sort_q (timeout_q (ready s') x) compare_for_remain))"
proof (intro conjI impI; elim conjE)
  assume "fresh p" "after FCFS_tick k (int (length p)) (FCFS_init p) = Inr s"
  then have i: "fresh (pre s) \<and> fresh (ready s)" by (rule FCFS_fresh_after)
  then show "fresh (ready s)" by simp
  from i show "\<forall>s1. FCFS_arrive s = Inr s1 \<longrightarrow> fresh (ready s1) \<and>
         (\<forall>s2. FCFS_dispatch s1 = Inr s2 \<longrightarrow> fresh (ready s2))"
    using FCFS_fresh_arrive FCFS_fresh_dispatch by blast
next
  assume "fresh ps" "after SJF_tick k (int (length ps)) (SJF_init ps) = Inr s'"
  then have i: "fresh (pre s') \<and> fresh (ready s')" by (rule SJF_fresh_after)
  then show "fresh (ready s')" by simp
  from i show "\<forall>s1. SJF_arrive s' = Inr s1 \<longrightarrow> fresh (ready s1) \<and>
         (\<forall>s2. SJF_dispatch s1 = Inr s2 \<longrightarrow> fresh (ready s2))"
    using SJF_fresh_arrive SJF_fresh_dispatch by blast
  from i show "\<forall>x xs. pre s' = x # xs \<longrightarrow>
         sort_q (timeout_q (ready s') x) compare_for_SJF
           = sort_q (timeout_q (ready s') x) compare_for_remain"
    by (auto intro!: sort_q_burst_remain simp: enqueue_def fresh_append fresh_Cons fresh_Nil)
qed

text \<open>
  FCFS after three ticks: \<open>P0\<close> has run for three units, \<open>P1\<close> and \<open>P2\<close> wait. SJF after
  two ticks: \<open>P1\<close> waits, and admitting \<open>P2\<close>, the shorter job, puts it in front of
  \<open>P1\<close> under either comparator.
\<close>

theorem ready_records_keep_burst_witness:
  "fresh [proc 0 0 5, proc 1 1 3, proc 2 2 8] \<and>
   (case after FCFS_tick 3 3 (FCFS_init [proc 0 0 5, proc 1 1 3, proc 2 2 8]) of
      Inr s \<Rightarrow> fresh (ready s) \<and>
        map (\<lambda>r. (processID r, remain r, burst r)) (ready s) = [(1, 3, 3), (2, 8, 8)] \<and>
        map_option (\<lambda>r. (processID r, remain r, burst r)) (temp s) = Some (0, 2, 5)
    | Inl e \<Rightarrow> False) \<and>
   fresh [proc_sjf 0 0 5, proc_sjf 1 1 8, proc_sjf 2 2 3] \<and>
   (case after SJF_tick 2 3 (SJF_init [proc_sjf 0 0 5, proc_sjf 1 1 8, proc_sjf 2 2 3]) of
      Inr s \<Rightarrow> fresh (ready s) \<and>
        map (\<lambda>r. (processID r, remain r, burst r)) (ready s) = [(1, 8, 8)] \<and>
        map (\<lambda>r. (processID r, remain r, burst r)) (pre s) = [(2, 3, 3)] \<and>
        map_option (\<lambda>r. (processID r, remain r, burst r)) (temp s) = Some (0, 3, 5) \<and>
        sort_q (timeout_q (ready s) (proc_sjf 2 2 3)) compare_for_SJF
          = sort_q (timeout_q (ready s) (proc_sjf 2 2 3)) compare_for_remain \<and>
        map processID (sort_q (timeout_q (ready s) (proc_sjf 2 2 3)) compare_for_SJF) = [2, 1]
    | Inl e \<Rightarrow> False)"
proof -
  let ?p = "[proc 0 0 5, proc 1 1 3, proc 2 2 8]"
  let ?ps = "[proc_sjf 0 0 5, proc_sjf 1 1 8, proc_sjf 2 2 3]"
  have hp: "fresh ?p" by code_simp
  have hps: "fresh ?ps" by code_simp
  have f: "map_sum id (\<lambda>s. (map (\<lambda>r. (processID r, remain r, burst r)) (ready s),
              map_option (\<lambda>r. (processID r, remain r, burst r)) (temp s)))
            (after FCFS_tick 3 3 (FCFS_init ?p)) = Inr ([(1, 3, 3), (2, 8, 8)], Some (0, 2, 5))"
    by code_simp
  have j: "map_sum id (\<lambda>s. (map (\<lambda>r. (processID r, remain r, burst r)) (ready s),
              map (\<lambda>r. (processID r, remain r, burst r)) (pre s),
              map_option (\<lambda>r. (processID r, remain r, burst r)) (temp s),
              pre s = [proc_sjf 2 2 3],
              map processID (sort_q (timeout_q (ready s) (proc_sjf 2 2 3)) compare_for_SJF)))
            (after SJF_tick 2 3 (SJF_init ?ps)) = Inr ([(1, 8, 8)], [(2, 3, 3)], Some (0, 3, 5), True, [2, 1])"
    by code_simp
  from f obtain s where s: "after FCFS_tick 3 3 (FCFS_init ?p) = Inr s"
    by (cases "after FCFS_tick 3 3 (FCFS_init ?p)") simp_all
  from j obtain s' where s': "after SJF_tick 2 3 (SJF_init ?ps) = Inr s'"
    by (cases "after SJF_tick 2 3 (SJF_init ?ps)") simp_all
  note k = ready_records_keep_burst [where p = ?p and k = 3 and s = s]
  note k' = ready_records_keep_burst [where ps = ?ps and k = 2 and s' = s']
  from hp s k have a: "fresh (ready s)" by simp
  from hps s' k' have b: "fresh (ready s')" and
    c: "\<forall>x xs. pre s' = x # xs \<longrightarrow>
         sort_q (timeout_q (ready s') x) compare_for_SJF
           = sort_q (timeout_q (ready s') x) compare_for_remain"
    by simp_all
  from j s' have "pre s' = [proc_sjf 2 2 3]" by simp
  with c have d: "sort_q (timeout_q (ready s') (proc_sjf 2 2 3)) compare_for_SJF
           = sort_q (timeout_q (ready s') (proc_sjf 2 2 3)) compare_for_remain"
    by simp
  from hp hps f j s s' a b d show ?thesis by (simp add: proc_sjf_def)
qed

end
